theory Spec2Isabelle
  imports Complex_Main "HOL-Library.Word"
begin

section \<open>AXIO MET AX-178 logger: the frame decoder and the synchronizer\<close>

text \<open>
  A shallow embedding of \<^verbatim>\<open>axio-logger.py\<close>. A byte read from the serial port is an
  \<open>8 word\<close>; a \<^verbatim>\<open>bytes\<close> object is a list of them. Python's \<^verbatim>\<open>float\<close> is modelled by
  \<open>real\<close>: the theorems below say which operations are applied to the value and in which
  order, not how each of them rounds.
\<close>

type_synonym byte = "8 word"

datatype error = ValueError | ZeroDivisionError | TypeError

subsection \<open>bitarray, little-endian\<close>

text \<open>
  \<^verbatim>\<open>bitarray(endian='little')\<close>: bit \<open>i\<close> of the array is bit \<open>i mod 8\<close> (counted from the
  least significant one) of byte \<open>i div 8\<close>. \<^verbatim>\<open>tobytes\<close> packs eight bits per byte in the
  same order and fills the last byte with zero bits.
\<close>

definition byte_bits :: "byte \<Rightarrow> bool list" where
  "byte_bits w = map (bit w) [0..<8]"

definition frombytes :: "byte list \<Rightarrow> bool list" where
  "frombytes bs = concat (map byte_bits bs)"

definition pack_byte :: "bool list \<Rightarrow> byte" where
  "pack_byte bs = foldr (\<lambda>b n. of_bool b + 2 * n) bs 0"

fun tobytes :: "bool list \<Rightarrow> byte list" where
  "tobytes [] = []"
| "tobytes (b # bs) = pack_byte (take 8 (b # bs)) # tobytes (drop 7 bs)"

definition bitarray :: "string \<Rightarrow> bool list" where
  "bitarray bits = map (\<lambda>c. c = CHR ''1'') bits"

definition bit_bytes :: "string \<Rightarrow> byte list" where
  "bit_bytes bits = tobytes (bitarray bits)"

subsection \<open>The mode table\<close>

datatype Mode = Mode (unit: string) (divisor: int)

definition modes :: "(byte list \<times> Mode) list" where
  "modes =
    [(bit_bytes ''001010000'', Mode ''V AC'' 10000),
     (bit_bytes ''001010001'', Mode ''%'' 100),
     (bit_bytes ''001010010'', Mode ''mV DC'' 1000),
     (bit_bytes ''001010011'', Mode ''nF'' 100),
     (bit_bytes ''001010100'', Mode ''V DC'' 10000),
     (bit_bytes ''001010101'', Mode ''Ohm'' 100),
     (bit_bytes ''001010110'', Mode ''mV AC DC'' 100),
     (bit_bytes ''001010111'', Mode ''uA AC'' 100),
     (bit_bytes ''001011000'', Mode ''dBm'' 100),
     (bit_bytes ''001011001'', Mode ''VF'' 10000),
     (bit_bytes ''001011010'', Mode ''mV AC'' 1000),
     (bit_bytes ''001011011'', Mode ''uA DC'' 100),
     (bit_bytes ''001011100'', Mode ''A DC'' 10000),
     (bit_bytes ''001011110'', Mode ''Hz'' 1000),
     (bit_bytes ''001011111'', Mode ''uA AC DC'' 100)]"

subsection \<open>\<^verbatim>\<open>str\<close> of a byte value and \<^verbatim>\<open>int\<close> of a string\<close>

text \<open>
  Iterating over a \<^verbatim>\<open>bytes\<close> object yields integers, so \<^verbatim>\<open>str(c)\<close> is the decimal numeral
  of the byte's value (one to three characters). \<^verbatim>\<open>int(s)\<close> raises \<^verbatim>\<open>ValueError\<close> on the
  empty string and on a string with a character that is no decimal digit (the sign,
  blanks and underscores that Python also accepts never occur in the output of \<^verbatim>\<open>str\<close>).
\<close>

definition digit_chars :: string where
  "digit_chars = ''0123456789''"

fun str :: "nat \<Rightarrow> string" where
  "str n = (if n < 10 then [digit_chars ! n] else str (n div 10) @ [digit_chars ! (n mod 10)])"

declare str.simps [simp del]

definition digit_val :: "char \<Rightarrow> nat" where
  "digit_val c = length (takeWhile (\<lambda>d. d \<noteq> c) digit_chars)"

definition int_of_str :: "string \<Rightarrow> error + int" where
  "int_of_str s =
     (if s = [] \<or> (\<exists>c \<in> set s. c \<notin> set digit_chars) then Inl ValueError
      else Inr (foldl (\<lambda>n c. 10 * n + int (digit_val c)) 0 s))"

subsection \<open>One frame\<close>

record args =
  csv :: bool
  iso_time :: bool
  raw :: bool
  unix_time :: bool

text \<open>The local variables \<^verbatim>\<open>unit\<close>, \<^verbatim>\<open>value\<close> and \<^verbatim>\<open>negative\<close> of \<^verbatim>\<open>process\<close>.\<close>

record vars =
  var_unit :: string
  var_value :: real
  var_negative :: nat

text \<open>The final \<^verbatim>\<open>value\<close> is a float, or the string \<^verbatim>\<open>'OVERFLOW'\<close>.\<close>

datatype pyvalue = Float real | Str string

text \<open>
  What one pass through the loop body decides for a full frame: the raw record that is
  printed (lines 99 to 101), the unknown-mode diagnostic (lines 103 to 105), or the
  value and unit that reach the final \<^verbatim>\<open>print\<close>.
\<close>

datatype outcome =
    Raw "bool list" "bool list" nat string
  | UnknownMode "bool list" int
  | Measurement pyvalue string

text \<open>The rewrite rules of lines 113 to 168, one definition for each \<^verbatim>\<open>if\<close> statement.\<close>

definition rule_ohm :: "bool list \<Rightarrow> vars \<Rightarrow> vars" where
  "rule_ohm ba s =
     (if var_unit s = ''Ohm'' then
        (if ba ! 2 then s\<lparr>var_unit := ''M Ohm'', var_value := var_value s / 100\<rparr>
         else if ba ! 1 then s\<lparr>var_unit := ''k Ohm'', var_value := var_value s / 10\<rparr>
         else s)
      else s)"

definition rule_percent :: "bool list \<Rightarrow> vars \<Rightarrow> vars" where
  "rule_percent ba s =
     (if var_unit s = ''%'' then
        (if ba ! 14 then s\<lparr>var_unit := ''nF'', var_value := var_value s / 1000\<rparr> else s)
      else s)"

definition rule_nf :: "bool list \<Rightarrow> vars \<Rightarrow> vars" where
  "rule_nf ba s =
     (if var_unit s = ''nF'' then
        (if ba ! 2 then s\<lparr>var_unit := ''uF'', var_value := var_value s * 10\<rparr> else s)
      else s)"

definition rule_vac :: "bool list \<Rightarrow> vars \<Rightarrow> vars" where
  "rule_vac ba s =
     (if var_unit s = ''V AC'' then
        (let s1 = s\<lparr>var_negative := 0\<rparr>
         in if ba ! 1 then s1\<lparr>var_value := var_value s1 * 100\<rparr> else s1)
      else s)"

definition rule_mvdc :: "bool list \<Rightarrow> vars \<Rightarrow> vars" where
  "rule_mvdc ba s =
     (if var_unit s = ''mV DC'' \<and> ba ! 12
      then s\<lparr>var_unit := ''A AC'', var_negative := 0, var_value := var_value s / 10\<rparr>
      else s)"

definition rule_vdc :: "bool list \<Rightarrow> vars \<Rightarrow> vars" where
  "rule_vdc ba s =
     (if var_unit s = ''V DC'' \<and> ba ! 12
      then s\<lparr>var_unit := ''mA AC DC'', var_value := var_value s * 10\<rparr>
      else s)"

definition rule_mvac :: "bool list \<Rightarrow> vars \<Rightarrow> vars" where
  "rule_mvac ba s =
     (if var_unit s = ''mV AC'' \<and> ba ! 12
      then s\<lparr>var_unit := ''A AC DC'', var_value := var_value s / 10\<rparr>
      else s)"

definition rule_vac12 :: "bool list \<Rightarrow> vars \<Rightarrow> vars" where
  "rule_vac12 ba s =
     (if var_unit s = ''V AC'' \<and> ba ! 12 then s\<lparr>var_unit := ''mA DC''\<rparr> else s)"

definition rule_dbm :: "vars \<Rightarrow> vars" where
  "rule_dbm s =
     (if var_unit s = ''dBm'' \<and> var_negative s \<noteq> 0
      then s\<lparr>var_unit := ''ma AC'', var_value := var_value s / 10, var_negative := 0\<rparr>
      else s)"

definition rule_uaac :: "vars \<Rightarrow> vars" where
  "rule_uaac s = (if var_unit s = ''uA AC'' then s\<lparr>var_negative := 0\<rparr> else s)"

definition rule_times_ten :: "bool list \<Rightarrow> vars \<Rightarrow> vars" where
  "rule_times_ten ba s = (if ba ! 0 then s\<lparr>var_value := var_value s * 10\<rparr> else s)"

definition rule_sign :: "vars \<Rightarrow> vars" where
  "rule_sign s = (if var_negative s \<noteq> 0 then s\<lparr>var_value := - var_value s\<rparr> else s)"

definition rules :: "bool list \<Rightarrow> vars \<Rightarrow> vars" where
  "rules ba s =
     rule_sign (rule_times_ten ba (rule_uaac (rule_dbm (rule_vac12 ba (rule_mvac ba
       (rule_vdc ba (rule_mvdc ba (rule_vac ba (rule_nf ba (rule_percent ba
         (rule_ohm ba s)))))))))))"

definition rule_overflow :: "bool list \<Rightarrow> vars \<Rightarrow> pyvalue" where
  "rule_overflow ba s = (if ba ! 13 then Str ''OVERFLOW'' else Float (var_value s))"

text \<open>
  The fields of a frame \<open>a\<close>: the bit array of \<^verbatim>\<open>a[0:3]\<close>, the digit string of
  \<^verbatim>\<open>a[3:8]\<close>, and the slice \<^verbatim>\<open>ba[3:12]\<close>.
\<close>

definition frame_ba :: "byte list \<Rightarrow> bool list" where
  "frame_ba a = frombytes (take 3 a)"

definition frame_numbers :: "byte list \<Rightarrow> string" where
  "frame_numbers a = concat (map (\<lambda>c. str (unat c)) (drop 3 (take 8 a)))"

definition frame_mode :: "byte list \<Rightarrow> bool list" where
  "frame_mode a = drop 3 (take 12 (frame_ba a))"

text \<open>
  Lines 86 to 168 of \<^verbatim>\<open>process\<close>, for a frame that passed the length check of line 81
  (so \<open>ba\<close> has 24 bits and every index below is in range, see \<open>length_frame_ba\<close>).
  \<open>Inl\<close> is an exception that leaves \<^verbatim>\<open>process\<close>.
\<close>

definition process_frame :: "args \<Rightarrow> byte list \<Rightarrow> error + outcome" where
  "process_frame ar a =
     (let ba = frame_ba a; numbers = frame_numbers a
      in case int_of_str numbers of
           Inl e \<Rightarrow> Inl e
         | Inr val \<Rightarrow>
             (let mode = frame_mode a; negative = (if ba ! 21 then 1 else 0)
              in if raw ar then Inr (Raw ba mode negative numbers)
                 else case map_of modes (tobytes mode) of
                        None \<Rightarrow> Inr (UnknownMode mode val)
                      | Some m \<Rightarrow>
                          if divisor m = 0 then Inl ZeroDivisionError
                          else
                            (let s = rules ba \<lparr>var_unit = unit m,
                                     var_value = real_of_int val / real_of_int (divisor m),
                                     var_negative = negative\<rparr>
                             in Inr (Measurement (rule_overflow ba s) (var_unit s)))))"



subsection \<open>The serial port and the output\<close>

text \<open>
  The port object as \<^verbatim>\<open>synchronize\<close> and \<^verbatim>\<open>process\<close> use it: the \<^verbatim>\<open>timeout\<close> attribute and
  \<^verbatim>\<open>read\<close>. What the device delivers is given from outside as \<open>pending\<close>: its k-th entry
  holds the bytes that the k-th call of \<^verbatim>\<open>read\<close> receives before its timeout expires, and
  \<^verbatim>\<open>read(n)\<close> returns at most \<open>n\<close> of them. When nothing is left, every further read
  times out and returns the empty bytes object. Everything written to standard output
  and standard error is recorded in \<open>printed\<close>, in order. The field \<open>calls\<close> is a
  history of the calls of \<^verbatim>\<open>read\<close>, kept for the proofs: the size asked for and the
  timeout in force at each call.
\<close>

datatype ts = No_timestamp | Iso_timestamp

datatype line =
    Out_len nat
  | Out_raw "bool list" "bool list" nat string
  | Out_measurement ts pyvalue string string
  | Err_synchronization_lost
  | Err_unknown_mode "bool list" int

record world =
  timeout :: nat
  pending :: "byte list list"
  calls :: "(nat \<times> nat) list"
  printed :: "line list"

definition read :: "nat \<Rightarrow> world \<Rightarrow> byte list \<times> world" where
  "read n w =
     (case pending w of
        [] \<Rightarrow> ([], w\<lparr>calls := calls w @ [(n, timeout w)]\<rparr>)
      | c # cs \<Rightarrow> (take n c, w\<lparr>pending := cs, calls := calls w @ [(n, timeout w)]\<rparr>))"

definition print :: "line \<Rightarrow> world \<Rightarrow> world" where
  "print l w = w\<lparr>printed := printed w @ [l]\<rparr>"

text \<open>
  The \<^verbatim>\<open>while True\<close> loop of \<^verbatim>\<open>synchronize\<close> (lines 38 to 44). It has no bound: the result
  is \<open>None\<close> when it never returns.
\<close>

partial_function (option) synchronize_loop :: "world \<Rightarrow> world option" where
  "synchronize_loop w =
     (case read 8 w of
        (a, w1) \<Rightarrow>
          (if length a = 8 then Some ((print (Out_len (length a)) w1)\<lparr>timeout := 400\<rparr>)
           else synchronize_loop (print (Out_len (length a)) w1)))"

definition synchronize :: "world \<Rightarrow> world option" where
  "synchronize w = (case read 16 (w\<lparr>timeout := 50\<rparr>) of (a, w1) \<Rightarrow> synchronize_loop w1)"

text \<open>
  Lines 170 to 176. With \<^verbatim>\<open>--unix-time\<close> the expression \<^verbatim>\<open>time.time() + sep\<close> adds a
  string to a float, which raises \<^verbatim>\<open>TypeError\<close>. The clock reading itself is left out.
\<close>

definition timestamp :: "args \<Rightarrow> error + ts" where
  "timestamp ar =
     (if unix_time ar then Inl TypeError
      else if iso_time ar then Inr Iso_timestamp
      else Inr No_timestamp)"

definition sep :: "args \<Rightarrow> string" where
  "sep ar = (if csv ar then '','' else [CHR 0x09])"

text \<open>
  The \<^verbatim>\<open>while True\<close> loop of \<^verbatim>\<open>process\<close> (lines 79 to 178), observed for \<open>n\<close> passes: the
  result is the world after \<open>n\<close> passes, or the exception that left the loop before, or
  \<open>None\<close> when a call of \<^verbatim>\<open>synchronize\<close> on the way never returns.
\<close>

fun process_loop :: "nat \<Rightarrow> args \<Rightarrow> world \<Rightarrow> (error + world) option" where
  "process_loop 0 ar w = Some (Inr w)"
| "process_loop (Suc n) ar w =
     (case read 8 w of
        (a, w1) \<Rightarrow>
          if length a \<noteq> 8 then
            (case synchronize (print Err_synchronization_lost w1) of
               None \<Rightarrow> None
             | Some w2 \<Rightarrow> process_loop n ar w2)
          else
            (case process_frame ar a of
               Inl e \<Rightarrow> Some (Inl e)
             | Inr (Raw ba mode negative numbers) \<Rightarrow>
                 process_loop n ar (print (Out_raw ba mode negative numbers) w1)
             | Inr (UnknownMode mode val) \<Rightarrow>
                 process_loop n ar (print (Err_unknown_mode mode val) w1)
             | Inr (Measurement val un) \<Rightarrow>
                 (case timestamp ar of
                    Inl e \<Rightarrow> Some (Inl e)
                  | Inr t \<Rightarrow>
                      process_loop n ar (print (Out_measurement t val (sep ar) un) w1))))"

definition process :: "nat \<Rightarrow> args \<Rightarrow> world \<Rightarrow> (error + world) option" where
  "process n ar w =
     (case synchronize w of
        None \<Rightarrow> None
      | Some w1 \<Rightarrow> process_loop n ar w1)"

subsection \<open>Notions used in the statements\<close>

text \<open>
  The frame \<open>a\<close> with bit \<open>i\<close> of its bit array set to \<open>b\<close> and nothing else changed
  (bit \<open>i\<close> of the array is bit \<open>i mod 8\<close> of byte \<open>i div 8\<close>).
\<close>

definition with_bit :: "nat \<Rightarrow> bool \<Rightarrow> byte list \<Rightarrow> byte list" where
  "with_bit i b a =
     a[i div 8 := (if b then set_bit (i mod 8) (a ! (i div 8))
                   else unset_bit (i mod 8) (a ! (i div 8)))]"

text \<open>An entry of \<open>pending\<close> from which \<^verbatim>\<open>read(8)\<close> returns fewer than 8 bytes.\<close>

definition short :: "byte list \<Rightarrow> bool" where
  "short c = (length c < 8)"

text \<open>The record that line 100 prints for the frame \<open>a\<close>.\<close>

definition raw_record :: "byte list \<Rightarrow> line" where
  "raw_record a =
     Out_raw (frame_ba a) (frame_mode a) (if frame_ba a ! 21 then 1 else 0) (frame_numbers a)"

section \<open>Facts about the model\<close>

lemma length_frame_ba: "length a = 8 \<Longrightarrow> length (frame_ba a) = 24"
  by (simp add: frame_ba_def frombytes_def byte_bits_def length_concat comp_def sum_list_triv)

subsection \<open>The table, evaluated\<close>

lemma modes_eval:
  "modes =
    [([20, 0], Mode ''V AC'' 10000), ([20, 1], Mode ''%'' 100),
     ([148, 0], Mode ''mV DC'' 1000), ([148, 1], Mode ''nF'' 100),
     ([84, 0], Mode ''V DC'' 10000), ([84, 1], Mode ''Ohm'' 100),
     ([212, 0], Mode ''mV AC DC'' 100), ([212, 1], Mode ''uA AC'' 100),
     ([52, 0], Mode ''dBm'' 100), ([52, 1], Mode ''VF'' 10000),
     ([180, 0], Mode ''mV AC'' 1000), ([180, 1], Mode ''uA DC'' 100),
     ([116, 0], Mode ''A DC'' 10000), ([244, 0], Mode ''Hz'' 1000),
     ([244, 1], Mode ''uA AC DC'' 100)]"
  by (simp add: modes_def bit_bytes_def bitarray_def pack_byte_def)

lemma modes_cases:
  assumes "map_of modes k = Some m"
  shows "m \<in> {Mode ''V AC'' 10000, Mode ''%'' 100, Mode ''mV DC'' 1000, Mode ''nF'' 100,
     Mode ''V DC'' 10000, Mode ''Ohm'' 100, Mode ''mV AC DC'' 100, Mode ''uA AC'' 100,
     Mode ''dBm'' 100, Mode ''VF'' 10000, Mode ''mV AC'' 1000, Mode ''uA DC'' 100,
     Mode ''A DC'' 10000, Mode ''Hz'' 1000, Mode ''uA AC DC'' 100}"
proof -
  from assms have "(k, m) \<in> set modes" by (rule map_of_SomeD)
  then show ?thesis unfolding modes_eval by auto
qed

lemma modes_divisor: "map_of modes k = Some m \<Longrightarrow> divisor m \<noteq> 0"
  by (drule modes_cases) auto

subsection \<open>The digit string always parses\<close>

lemma str_digits: "str n \<noteq> [] \<and> set (str n) \<subseteq> set digit_chars"
proof (induction n rule: str.induct)
  case (1 n)
  show ?case
  proof (cases "n < 10")
    case True
    then have "digit_chars ! n \<in> set digit_chars"
      by (intro nth_mem) (simp add: digit_chars_def)
    with True show ?thesis by (simp add: str.simps [of n])
  next
    case False
    have "digit_chars ! (n mod 10) \<in> set digit_chars"
      by (intro nth_mem) (simp add: digit_chars_def)
    with False 1 show ?thesis by (simp add: str.simps [of n])
  qed
qed

lemma frame_numbers_digits:
  assumes "length a = 8"
  shows "frame_numbers a \<noteq> []" and "set (frame_numbers a) \<subseteq> set digit_chars"
proof -
  from assms have "drop 3 (take 8 a) \<noteq> []" by simp
  then obtain c cs where "drop 3 (take 8 a) = c # cs"
    by (cases "drop 3 (take 8 a)") auto
  then show "frame_numbers a \<noteq> []"
    using str_digits [of "unat c"] by (simp add: frame_numbers_def)
  show "set (frame_numbers a) \<subseteq> set digit_chars"
    using str_digits by (auto simp: frame_numbers_def)
qed

lemma foldl_digits_nonneg:
  "0 \<le> n \<Longrightarrow> 0 \<le> foldl (\<lambda>n c. 10 * n + int (digit_val c)) n s"
  by (induction s arbitrary: n) simp_all

lemma int_of_str_frame:
  assumes "length a = 8"
  shows "\<exists>M. 0 \<le> M \<and> int_of_str (frame_numbers a) = Inr M"
  using frame_numbers_digits [OF assms] foldl_digits_nonneg [of 0]
  by (auto simp: int_of_str_def)

subsection \<open>The bits of a frame\<close>

lemma byte_bits_eval:
  "byte_bits w = [bit w 0, bit w 1, bit w 2, bit w 3, bit w 4, bit w 5, bit w 6, bit w 7]"
  by (simp add: byte_bits_def upt_conv_Cons eval_nat_numeral)

lemma take8:
  "8 \<le> length a \<Longrightarrow> take 8 a = [a ! 0, a ! 1, a ! 2, a ! 3, a ! 4, a ! 5, a ! 6, a ! 7]"
proof -
  assume len: "8 \<le> length a"
  then have "a \<noteq> []" by auto
  with len show ?thesis by (simp add: eval_nat_numeral take_Suc_conv_app_nth)
qed

lemma frame8:
  assumes "length a = 8"
  shows "a = [a ! 0, a ! 1, a ! 2, a ! 3, a ! 4, a ! 5, a ! 6, a ! 7]"
  using take8 [of a] assms by simp

subsection \<open>A frame with a known mode\<close>

lemmas rule_defs = rules_def rule_ohm_def rule_percent_def rule_nf_def rule_vac_def
  rule_mvdc_def rule_vdc_def rule_mvac_def rule_vac12_def rule_dbm_def rule_uaac_def
  rule_times_ten_def rule_sign_def rule_overflow_def

lemma process_frame_known:
  assumes "\<not> raw ar"
    and "map_of modes (tobytes (frame_mode a)) = Some m"
    and "int_of_str (frame_numbers a) = Inr M"
  shows "process_frame ar a =
     (let ba = frame_ba a;
          s = rules ba \<lparr>var_unit = unit m,
                var_value = real_of_int M / real_of_int (divisor m),
                var_negative = (if ba ! 21 then 1 else 0)\<rparr>
      in Inr (Measurement (rule_overflow ba s) (var_unit s)))"
  using assms modes_divisor [OF assms(2)] by (simp add: process_frame_def Let_def)

lemma rules_plain:
  assumes bits: "\<not> ba ! 0" "\<not> ba ! 1" "\<not> ba ! 2"
    "\<not> ba ! 12" "\<not> ba ! 13" "\<not> ba ! 14" "\<not> ba ! 21"
  and m: "m \<in> {Mode ''V AC'' 10000, Mode ''%'' 100, Mode ''mV DC'' 1000, Mode ''nF'' 100,
     Mode ''V DC'' 10000, Mode ''Ohm'' 100, Mode ''mV AC DC'' 100, Mode ''uA AC'' 100,
     Mode ''dBm'' 100, Mode ''VF'' 10000, Mode ''mV AC'' 1000, Mode ''uA DC'' 100,
     Mode ''A DC'' 10000, Mode ''Hz'' 1000, Mode ''uA AC DC'' 100}"
  shows "rules ba \<lparr>var_unit = unit m, var_value = v,
            var_negative = (if ba ! 21 then 1 else 0)\<rparr>
     = \<lparr>var_unit = unit m, var_value = v, var_negative = 0\<rparr>"
  using m bits by (elim insertE emptyE) (simp_all add: rule_defs)

subsection \<open>Changing one bit of a frame\<close>

lemma byte_bits_nth: "j < 8 \<Longrightarrow> byte_bits w ! j = bit w j"
  by (simp add: byte_bits_def)

lemma length_byte_bits: "length (byte_bits w) = 8"
  by (simp add: byte_bits_def)

lemma frombytes_nth:
  "j < 8 * length bs \<Longrightarrow> frombytes bs ! j = bit (bs ! (j div 8)) (j mod 8)"
proof (induction bs arbitrary: j)
  case Nil
  then show ?case by simp
next
  case (Cons b bs)
  show ?case
  proof (cases "j < 8")
    case True
    then show ?thesis
      by (simp add: frombytes_def nth_append length_byte_bits byte_bits_nth)
  next
    case False
    then obtain k where k: "j = k + 8" by (metis le_add_diff_inverse2 not_less)
    with Cons.prems have "k < 8 * length bs" by simp
    from Cons.IH [OF this] k show ?thesis
      by (simp add: frombytes_def nth_append length_byte_bits)
  qed
qed

lemma frame_ba_nth:
  assumes "length a = 8" and "j < 24"
  shows "frame_ba a ! j = bit (a ! (j div 8)) (j mod 8)"
proof -
  from assms have "j < 8 * length (take 3 a)" by simp
  from frombytes_nth [OF this] assms show ?thesis by (simp add: frame_ba_def)
qed

lemma length_with_bit: "length (with_bit i b a) = length a"
  by (simp add: with_bit_def)

lemma frame_ba_with_bit:
  assumes "length a = 8" and "i < 24" and "j < 24"
  shows "frame_ba (with_bit i b a) ! j = (if j = i then b else frame_ba a ! j)"
proof -
  have len: "length (with_bit i b a) = 8" using assms by (simp add: length_with_bit)
  from assms have i8: "i div 8 < length a" by simp
  have eq: "j = i \<longleftrightarrow> j div 8 = i div 8 \<and> j mod 8 = i mod 8"
    by (metis div_mult_mod_eq)
  have m8: "j mod 8 < 8" "i mod 8 < 8" by simp_all
  show ?thesis
    unfolding frame_ba_nth [OF len assms(3)] frame_ba_nth [OF assms(1,3)]
    using i8 m8 unfolding eq
    by (auto simp: with_bit_def nth_list_update bit_set_bit_iff bit_unset_bit_iff)
qed

lemma frame_mode_nth_eq:
  assumes "length a = 8" and "length a' = 8"
    and "\<And>j. 3 \<le> j \<Longrightarrow> j < 12 \<Longrightarrow> frame_ba a' ! j = frame_ba a ! j"
  shows "frame_mode a' = frame_mode a"
  using assms
  by (simp add: frame_mode_def list_eq_iff_nth_eq length_frame_ba)

lemma frame_mode_with_bit:
  assumes "length a = 8" and "i < 3 \<or> (12 \<le> i \<and> i < 24)"
  shows "frame_mode (with_bit i b a) = frame_mode a"
proof (rule frame_mode_nth_eq)
  fix j :: nat assume "3 \<le> j" "j < 12"
  with assms show "frame_ba (with_bit i b a) ! j = frame_ba a ! j"
    by (subst frame_ba_with_bit) auto
qed (simp_all add: assms length_with_bit)

lemma frame_numbers_with_bit:
  assumes "i < 24"
  shows "frame_numbers (with_bit i b a) = frame_numbers a"
proof -
  from assms have "i div 8 < 3" by simp
  then have "drop 3 (with_bit i b a) = drop 3 a" by (simp add: with_bit_def)
  then show ?thesis by (simp add: frame_numbers_def drop_take)
qed

subsection \<open>The rule chain, evaluated on a record\<close>

lemma rule_rec:
  "rule_ohm ba \<lparr>var_unit = u, var_value = v, var_negative = n\<rparr> =
     (if u = ''Ohm'' then
        (if ba ! 2 then \<lparr>var_unit = ''M Ohm'', var_value = v / 100, var_negative = n\<rparr>
         else if ba ! 1 then \<lparr>var_unit = ''k Ohm'', var_value = v / 10, var_negative = n\<rparr>
         else \<lparr>var_unit = u, var_value = v, var_negative = n\<rparr>)
      else \<lparr>var_unit = u, var_value = v, var_negative = n\<rparr>)"
  "rule_percent ba \<lparr>var_unit = u, var_value = v, var_negative = n\<rparr> =
     (if u = ''%'' \<and> ba ! 14 then \<lparr>var_unit = ''nF'', var_value = v / 1000, var_negative = n\<rparr>
      else \<lparr>var_unit = u, var_value = v, var_negative = n\<rparr>)"
  "rule_nf ba \<lparr>var_unit = u, var_value = v, var_negative = n\<rparr> =
     (if u = ''nF'' \<and> ba ! 2 then \<lparr>var_unit = ''uF'', var_value = v * 10, var_negative = n\<rparr>
      else \<lparr>var_unit = u, var_value = v, var_negative = n\<rparr>)"
  "rule_vac ba \<lparr>var_unit = u, var_value = v, var_negative = n\<rparr> =
     (if u = ''V AC'' then
        (if ba ! 1 then \<lparr>var_unit = u, var_value = v * 100, var_negative = 0\<rparr>
         else \<lparr>var_unit = u, var_value = v, var_negative = 0\<rparr>)
      else \<lparr>var_unit = u, var_value = v, var_negative = n\<rparr>)"
  "rule_mvdc ba \<lparr>var_unit = u, var_value = v, var_negative = n\<rparr> =
     (if u = ''mV DC'' \<and> ba ! 12
      then \<lparr>var_unit = ''A AC'', var_value = v / 10, var_negative = 0\<rparr>
      else \<lparr>var_unit = u, var_value = v, var_negative = n\<rparr>)"
  "rule_vdc ba \<lparr>var_unit = u, var_value = v, var_negative = n\<rparr> =
     (if u = ''V DC'' \<and> ba ! 12
      then \<lparr>var_unit = ''mA AC DC'', var_value = v * 10, var_negative = n\<rparr>
      else \<lparr>var_unit = u, var_value = v, var_negative = n\<rparr>)"
  "rule_mvac ba \<lparr>var_unit = u, var_value = v, var_negative = n\<rparr> =
     (if u = ''mV AC'' \<and> ba ! 12
      then \<lparr>var_unit = ''A AC DC'', var_value = v / 10, var_negative = n\<rparr>
      else \<lparr>var_unit = u, var_value = v, var_negative = n\<rparr>)"
  "rule_vac12 ba \<lparr>var_unit = u, var_value = v, var_negative = n\<rparr> =
     (if u = ''V AC'' \<and> ba ! 12 then \<lparr>var_unit = ''mA DC'', var_value = v, var_negative = n\<rparr>
      else \<lparr>var_unit = u, var_value = v, var_negative = n\<rparr>)"
  "rule_dbm \<lparr>var_unit = u, var_value = v, var_negative = n\<rparr> =
     (if u = ''dBm'' \<and> n \<noteq> 0
      then \<lparr>var_unit = ''ma AC'', var_value = v / 10, var_negative = 0\<rparr>
      else \<lparr>var_unit = u, var_value = v, var_negative = n\<rparr>)"
  "rule_uaac \<lparr>var_unit = u, var_value = v, var_negative = n\<rparr> =
     (if u = ''uA AC'' then \<lparr>var_unit = u, var_value = v, var_negative = 0\<rparr>
      else \<lparr>var_unit = u, var_value = v, var_negative = n\<rparr>)"
  "rule_times_ten ba \<lparr>var_unit = u, var_value = v, var_negative = n\<rparr> =
     (if ba ! 0 then \<lparr>var_unit = u, var_value = v * 10, var_negative = n\<rparr>
      else \<lparr>var_unit = u, var_value = v, var_negative = n\<rparr>)"
  "rule_sign \<lparr>var_unit = u, var_value = v, var_negative = n\<rparr> =
     (if n \<noteq> 0 then \<lparr>var_unit = u, var_value = - v, var_negative = n\<rparr>
      else \<lparr>var_unit = u, var_value = v, var_negative = n\<rparr>)"
  by (simp_all add: rule_defs)

lemmas rule_if =
  if_distrib [of "rule_ohm ba"] if_distrib [of "rule_percent ba"] if_distrib [of "rule_nf ba"]
  if_distrib [of "rule_vac ba"] if_distrib [of "rule_mvdc ba"] if_distrib [of "rule_vdc ba"]
  if_distrib [of "rule_mvac ba"] if_distrib [of "rule_vac12 ba"] if_distrib [of rule_dbm]
  if_distrib [of rule_uaac] if_distrib [of "rule_times_ten ba"] if_distrib [of rule_sign]
  for ba

lemmas rules_eval = rules_def rule_rec rule_if

lemma process_frame_with_bit:
  assumes len: "length a = 8" and nraw: "\<not> raw ar"
    and key: "map_of modes (tobytes (frame_mode a)) = Some m"
    and M: "int_of_str (frame_numbers a) = Inr M"
    and i: "i = 12 \<or> i = 13 \<or> i = 21"
  shows "process_frame ar (with_bit i b a) =
     (let ba = frame_ba (with_bit i b a);
          s = rules ba \<lparr>var_unit = unit m,
                var_value = real_of_int M / real_of_int (divisor m),
                var_negative = (if ba ! 21 then 1 else 0)\<rparr>
      in Inr (Measurement (rule_overflow ba s) (var_unit s)))"
proof -
  from i have i24: "i < 24" and im: "i < 3 \<or> (12 \<le> i \<and> i < 24)" by auto
  show ?thesis
    by (rule process_frame_known [OF nraw])
      (simp_all add: frame_mode_with_bit [OF len im] frame_numbers_with_bit [OF i24] key M)
qed

lemma rules_agree:
  assumes "ba' ! 0 = ba ! 0" "ba' ! 1 = ba ! 1" "ba' ! 2 = ba ! 2"
    "ba' ! 12 = ba ! 12" "ba' ! 14 = ba ! 14"
  shows "rules ba' = rules ba"
proof -
  have "rule_ohm ba' = rule_ohm ba" using assms by (simp add: rule_ohm_def fun_eq_iff)
  moreover have "rule_percent ba' = rule_percent ba"
    using assms by (simp add: rule_percent_def fun_eq_iff)
  moreover have "rule_nf ba' = rule_nf ba" using assms by (simp add: rule_nf_def fun_eq_iff)
  moreover have "rule_vac ba' = rule_vac ba" using assms by (simp add: rule_vac_def fun_eq_iff)
  moreover have "rule_mvdc ba' = rule_mvdc ba"
    using assms by (simp add: rule_mvdc_def fun_eq_iff)
  moreover have "rule_vdc ba' = rule_vdc ba" using assms by (simp add: rule_vdc_def fun_eq_iff)
  moreover have "rule_mvac ba' = rule_mvac ba"
    using assms by (simp add: rule_mvac_def fun_eq_iff)
  moreover have "rule_vac12 ba' = rule_vac12 ba"
    using assms by (simp add: rule_vac12_def fun_eq_iff)
  moreover have "rule_times_ten ba' = rule_times_ten ba"
    using assms by (simp add: rule_times_ten_def fun_eq_iff)
  ultimately show ?thesis by (simp add: rules_def fun_eq_iff)
qed

lemma rules_with_bit:
  assumes "length a = 8" and "i = 13 \<or> i = 21"
  shows "rules (frame_ba (with_bit i b a)) = rules (frame_ba a)"
  using assms(2) by (intro rules_agree) (auto simp: frame_ba_with_bit [OF assms(1)])

lemma rules_sign:
  assumes "m \<in> {Mode ''V AC'' 10000, Mode ''%'' 100, Mode ''mV DC'' 1000, Mode ''nF'' 100,
     Mode ''V DC'' 10000, Mode ''Ohm'' 100, Mode ''mV AC DC'' 100, Mode ''uA AC'' 100,
     Mode ''dBm'' 100, Mode ''VF'' 10000, Mode ''mV AC'' 1000, Mode ''uA DC'' 100,
     Mode ''A DC'' 10000, Mode ''Hz'' 1000, Mode ''uA AC DC'' 100}"
  shows "(if unit m = ''V AC'' \<or> unit m = ''uA AC'' \<or> (unit m = ''mV DC'' \<and> ba ! 12)
      then rules ba \<lparr>var_unit = unit m, var_value = v, var_negative = 1\<rparr> =
           rules ba \<lparr>var_unit = unit m, var_value = v, var_negative = 0\<rparr>
      else if unit m = ''dBm''
      then rules ba \<lparr>var_unit = unit m, var_value = v, var_negative = 1\<rparr> =
           \<lparr>var_unit = ''ma AC'', var_value = (if ba ! 0 then v / 10 * 10 else v / 10),
            var_negative = 0\<rparr>
      else var_unit (rules ba \<lparr>var_unit = unit m, var_value = v, var_negative = 1\<rparr>) =
           var_unit (rules ba \<lparr>var_unit = unit m, var_value = v, var_negative = 0\<rparr>) \<and>
           var_value (rules ba \<lparr>var_unit = unit m, var_value = v, var_negative = 1\<rparr>) =
           - var_value (rules ba \<lparr>var_unit = unit m, var_value = v, var_negative = 0\<rparr>))"
  using assms by (elim insertE emptyE) (simp_all add: rules_eval)

subsection \<open>The loop of \<^verbatim>\<open>synchronize\<close>\<close>

lemma sync_loop_needs_full:
  assumes "synchronize_loop w = Some w'"
  shows "\<exists>c \<in> set (pending w). 8 \<le> length c"
proof (rule synchronize_loop.raw_induct
    [where P = "\<lambda>w w'. \<exists>c \<in> set (pending w). 8 \<le> length c", OF _ assms])
  fix f :: "world \<Rightarrow> world option" and w wa
  assume IH: "\<And>x y. f x = Some y \<Longrightarrow> \<exists>c \<in> set (pending x). 8 \<le> length c"
    and step: "(case read 8 w of
      (a, w1) \<Rightarrow>
        if length a = 8
        then Some ((print (Out_len (length a)) w1)\<lparr>timeout := 400\<rparr>)
        else f (print (Out_len (length a)) w1)) = Some wa"
  show "\<exists>c \<in> set (pending w). 8 \<le> length c"
  proof (cases "pending w")
    case Nil
    with step have "f (print (Out_len 0) (w\<lparr>calls := calls w @ [(8, timeout w)]\<rparr>)) = Some wa"
      by (simp add: read_def)
    from IH [OF this] Nil show ?thesis by (simp add: print_def)
  next
    case (Cons c cs)
    show ?thesis
    proof (cases "8 \<le> length c")
      case True
      with Cons show ?thesis by simp
    next
      case False
      with step Cons have "f (print (Out_len (length c))
          (w\<lparr>pending := cs, calls := calls w @ [(8, timeout w)]\<rparr>)) = Some wa"
        by (simp add: read_def min_def)
      from IH [OF this] Cons show ?thesis by (simp add: print_def)
    qed
  qed
qed

lemma sync_loop_None:
  assumes "\<forall>c \<in> set (pending w). length c < 8"
  shows "synchronize_loop w = None"
proof (cases "synchronize_loop w")
  case (Some w')
  from sync_loop_needs_full [OF this] assms show ?thesis by auto
qed simp

lemma sync_loop_char:
  "synchronize_loop w =
     (case dropWhile short (pending w) of
        [] \<Rightarrow> None
      | full # rest \<Rightarrow>
          Some (w\<lparr>timeout := 400, pending := rest,
                  calls := calls w @
                    replicate (Suc (length (takeWhile short (pending w)))) (8, timeout w),
                  printed := printed w @
                    map (\<lambda>c. Out_len (length c)) (takeWhile short (pending w)) @ [Out_len 8]\<rparr>))"
proof (induction "pending w" arbitrary: w)
  case Nil
  then have "synchronize_loop w = None" by (intro sync_loop_None) simp
  with Nil [symmetric] show ?case by simp
next
  case (Cons c cs)
  show ?case
  proof (cases "short c")
    case True
    let ?w = "print (Out_len (length c)) (w\<lparr>pending := cs, calls := calls w @ [(8, timeout w)]\<rparr>)"
    have "cs = pending ?w" by (simp add: print_def)
    note IH = Cons(1) [OF this]
    from True Cons(2) [symmetric] have step: "synchronize_loop w = synchronize_loop ?w"
      by (subst synchronize_loop.simps) (simp add: read_def short_def min_def)
    from IH True Cons(2) [symmetric] show ?thesis
      unfolding step
      by (cases "dropWhile short cs")
        (simp_all add: print_def replicate_app_Cons_same del: dropWhile_eq_Nil_conv)
  next
    case False
    with Cons(2) [symmetric] show ?thesis
      by (subst synchronize_loop.simps) (simp add: read_def short_def print_def)
  qed
qed

subsection \<open>Five digit bytes below ten\<close>

lemma str_small: "n < 10 \<Longrightarrow> str n = [digit_chars ! n]"
  by (simp add: str.simps [of n])

lemma digit_val_nth: 
  assumes "n < 10" shows "digit_val (digit_chars ! n) = n"
proof -
  from assms have "n \<in> {0, 1, 2, 3, 4, 5, 6, 7, 8, 9}" by auto
  then show ?thesis
    by (elim insertE emptyE) (simp_all add: digit_val_def digit_chars_def)
qed

lemma frame_digits:
  assumes "length a = 8"
  shows "drop 3 (take 8 a) = [a ! 3, a ! 4, a ! 5, a ! 6, a ! 7]"
proof -
  from assms have "8 \<le> length a" by simp
  from take8 [OF this] show ?thesis by (simp only: drop_Cons_numeral drop_0 list.simps) simp
qed

lemma five_digits_bound:
  fixes d3 d4 d5 d6 d7 :: nat
  assumes "d3 < 10" "d4 < 10" "d5 < 10" "d6 < 10" "d7 < 10"
  shows "10 * (10 * (10 * (10 * int d3 + int d4) + int d5) + int d6) + int d7 \<le> 99999"
  using assms by (simp add: distrib_left)

subsection \<open>A pass of the loop in raw mode\<close>

lemma process_frame_raw:
  assumes "raw ar" and "length a = 8"
  shows "process_frame ar a =
    Inr (Raw (frame_ba a) (frame_mode a) (if frame_ba a ! 21 then 1 else 0) (frame_numbers a))"
proof -
  from int_of_str_frame [OF assms(2)]
  obtain M where "int_of_str (frame_numbers a) = Inr M" by blast
  with assms(1) show ?thesis by (simp add: process_frame_def Let_def)
qed

lemma process_loop_raw_step:
  assumes "raw ar" and "length a = 8" and "pending w = a # rest"
  shows "process_loop (Suc n) ar w =
     process_loop n ar (w\<lparr>pending := rest, calls := calls w @ [(8, timeout w)],
        printed := printed w @ [raw_record a]\<rparr>)"
  using assms
  by (simp add: read_def process_frame_raw print_def raw_record_def)

section \<open>The claims\<close>

text \<open>
  Decoding is what \<^verbatim>\<open>process\<close> does with a full frame when raw output is not selected
  (\<open>\<not> raw ar\<close>). A frame has a known mode when the bytes of its mode slice are a key of
  \<open>modes\<close>.
\<close>

text \<open>
  C1. The table holds the fifteen unit and divisor pairs V AC/10000, %/100, mV DC/1000,
  nF/100, V DC/10000, Ohm/100, mV AC DC/100, uA AC/100, dBm/100, VF/10000, mV AC/1000,
  uA DC/100, A DC/10000, Hz/1000, uA AC DC/100 under fifteen distinct keys; and a frame
  whose mode is one of those keys and whose bits 0, 1, 2, 12, 13, 14 and 21 are all
  cleared decodes to the unit of its table entry and to the magnitude divided by the
  divisor of its table entry.
\<close>

theorem plain_mode_value:
  assumes "length a = 8" and "\<not> raw ar"
    and "map_of modes (tobytes (frame_mode a)) = Some m"
    and "\<forall>i \<in> {0, 1, 2, 12, 13, 14, 21}. \<not> frame_ba a ! i"
  shows "(\<exists>M. int_of_str (frame_numbers a) = Inr M \<and>
            process_frame ar a =
              Inr (Measurement (Float (real_of_int M / real_of_int (divisor m))) (unit m)))
       \<and> distinct (map fst modes)
       \<and> map snd modes =
           [Mode ''V AC'' 10000, Mode ''%'' 100, Mode ''mV DC'' 1000, Mode ''nF'' 100,
            Mode ''V DC'' 10000, Mode ''Ohm'' 100, Mode ''mV AC DC'' 100,
            Mode ''uA AC'' 100, Mode ''dBm'' 100, Mode ''VF'' 10000, Mode ''mV AC'' 1000,
            Mode ''uA DC'' 100, Mode ''A DC'' 10000, Mode ''Hz'' 1000,
            Mode ''uA AC DC'' 100]"
proof -
  from int_of_str_frame [OF assms(1)]
  obtain M where M: "int_of_str (frame_numbers a) = Inr M" by blast
  from assms(4) have bits: "\<not> frame_ba a ! 0" "\<not> frame_ba a ! 1" "\<not> frame_ba a ! 2"
    "\<not> frame_ba a ! 12" "\<not> frame_ba a ! 13" "\<not> frame_ba a ! 14" "\<not> frame_ba a ! 21"
    by simp_all
  have "process_frame ar a =
      Inr (Measurement (Float (real_of_int M / real_of_int (divisor m))) (unit m))"
    using bits(5)
    by (simp add: process_frame_known [OF assms(2,3) M] Let_def
        rules_plain [OF bits modes_cases [OF assms(3)] ] rule_overflow_def)
  with M have "\<exists>M. int_of_str (frame_numbers a) = Inr M \<and>
            process_frame ar a =
              Inr (Measurement (Float (real_of_int M / real_of_int (divisor m))) (unit m))"
    by blast
  moreover have "distinct (map fst modes)" by (simp add: modes_eval)
  moreover have "map snd modes =
           [Mode ''V AC'' 10000, Mode ''%'' 100, Mode ''mV DC'' 1000, Mode ''nF'' 100,
            Mode ''V DC'' 10000, Mode ''Ohm'' 100, Mode ''mV AC DC'' 100,
            Mode ''uA AC'' 100, Mode ''dBm'' 100, Mode ''VF'' 10000, Mode ''mV AC'' 1000,
            Mode ''uA DC'' 100, Mode ''A DC'' 10000, Mode ''Hz'' 1000,
            Mode ''uA AC DC'' 100]"
    by (simp add: modes_eval)
  ultimately show ?thesis by blast
qed

text \<open>
  The frame \<open>[160, 2, 0, 0, 1, 2, 3, 4]\<close> has the mode key of V DC, the digits 01234 and no
  special bit: it decodes to 1234 / 10000 V DC.
\<close>

theorem plain_mode_value_witness:
  "process_frame \<lparr>csv = False, iso_time = False, raw = False, unix_time = False\<rparr>
     [160, 2, 0, 0, 1, 2, 3, 4] = Inr (Measurement (Float (1234 / 10000)) ''V DC'')"
proof -
  let ?a = "[160, 2, 0, 0, 1, 2, 3, 4] :: byte list"
  let ?ar = "\<lparr>csv = False, iso_time = False, raw = False, unix_time = False\<rparr>"
  have h1: "length ?a = 8" by simp
  have h2: "\<not> raw ?ar" by simp
  have h3: "map_of modes (tobytes (frame_mode ?a)) = Some (Mode ''V DC'' 10000)"
    by code_simp
  have h4: "\<forall>i \<in> {0, 1, 2, 12, 13, 14, 21}. \<not> frame_ba ?a ! i"
    by code_simp
  have h5: "int_of_str (frame_numbers ?a) = Inr 1234" by code_simp
  from plain_mode_value [OF h1 h2 h3 h4] h5 show ?thesis by simp
qed


text \<open>
  C3. A frame with a known mode and bit 13 set decodes to the value \<^verbatim>\<open>'OVERFLOW'\<close>,
  whatever its magnitude, its mode and its other bits; the unit is the one that the same
  frame with bit 13 cleared decodes to.
\<close>

theorem overflow_bit:
  assumes "length a = 8" and "\<not> raw ar"
    and "map_of modes (tobytes (frame_mode a)) = Some m"
    and "frame_ba a ! 13"
  shows "\<exists>u. process_frame ar a = Inr (Measurement (Str ''OVERFLOW'') u) \<and>
           (\<exists>v. process_frame ar (with_bit 13 False a) = Inr (Measurement (Float v) u))"
proof -
  from int_of_str_frame [OF assms(1)]
  obtain M where M: "int_of_str (frame_numbers a) = Inr M" by blast
  note fb = frame_ba_with_bit [OF assms(1)]
  have same: "rules (frame_ba (with_bit 13 False a)) = rules (frame_ba a)"
    by (rule rules_with_bit [OF assms(1)]) simp
  have "process_frame ar a = Inr (Measurement (Str ''OVERFLOW'')
      (var_unit (rules (frame_ba a) \<lparr>var_unit = unit m,
                var_value = real_of_int M / real_of_int (divisor m),
                var_negative = (if frame_ba a ! 21 then 1 else 0)\<rparr>)))"
    using assms(4) by (simp add: process_frame_known [OF assms(2,3) M] Let_def rule_overflow_def)
  moreover have "process_frame ar (with_bit 13 False a) = Inr (Measurement
      (Float (var_value (rules (frame_ba a) \<lparr>var_unit = unit m,
                var_value = real_of_int M / real_of_int (divisor m),
                var_negative = (if frame_ba a ! 21 then 1 else 0)\<rparr>)))
      (var_unit (rules (frame_ba a) \<lparr>var_unit = unit m,
                var_value = real_of_int M / real_of_int (divisor m),
                var_negative = (if frame_ba a ! 21 then 1 else 0)\<rparr>)))"
    by (simp add: process_frame_with_bit [OF assms(1-3) M] Let_def same rule_overflow_def fb)
  ultimately show ?thesis by blast
qed


text \<open>
  The V DC frame \<open>[160, 34, 0, 0, 1, 2, 3, 4]\<close> has bit 13 set: its value is \<^verbatim>\<open>'OVERFLOW'\<close> and
  its unit is V DC.
\<close>

theorem overflow_bit_witness:
  "process_frame \<lparr>csv = False, iso_time = False, raw = False, unix_time = False\<rparr>
     [160, 34, 0, 0, 1, 2, 3, 4] = Inr (Measurement (Str ''OVERFLOW'') ''V DC'')"
proof -
  let ?a = "[160, 34, 0, 0, 1, 2, 3, 4] :: byte list"
  let ?ar = "\<lparr>csv = False, iso_time = False, raw = False, unix_time = False\<rparr>"
  have h1: "length ?a = 8" by simp
  have h2: "\<not> raw ?ar" by simp
  have h3: "map_of modes (tobytes (frame_mode ?a)) = Some (Mode ''V DC'' 10000)"
    by code_simp
  have h4: "frame_ba ?a ! 13" by code_simp
  have e: "process_frame ?ar (with_bit 13 False ?a) =
      Inr (Measurement (Float (1234 / 10000)) ''V DC'')"
    by code_simp
  from overflow_bit [OF h1 h2 h3 h4] e show ?thesis by auto
qed

text \<open>
  C4, as amended. For a frame with a known mode and bit 13 cleared, compare the frame
  with the sign bit 21 set and the same frame with the sign bit cleared. When the mode is
  V AC or uA AC, or mV DC with bit 12 set, both decode to the same value and unit. When
  the mode is dBm, the frame with the sign bit is rewritten to ma AC, its value is the
  magnitude divided by 100 and by 10 (times 10 if bit 0 is set) and it is not negated.
  In every other case the unit is the same and the value is the negation.
\<close>

theorem sign_bit_negates:
  assumes "length a = 8" and "\<not> raw ar"
    and "map_of modes (tobytes (frame_mode a)) = Some m"
    and "\<not> frame_ba a ! 13"
  shows "\<exists>M v u. int_of_str (frame_numbers a) = Inr M \<and>
     process_frame ar (with_bit 21 False a) = Inr (Measurement (Float v) u) \<and>
     process_frame ar (with_bit 21 True a) =
       (if unit m = ''V AC'' \<or> unit m = ''uA AC'' \<or> (unit m = ''mV DC'' \<and> frame_ba a ! 12)
        then Inr (Measurement (Float v) u)
        else if unit m = ''dBm''
        then Inr (Measurement
               (Float (if frame_ba a ! 0 then real_of_int M / 100 / 10 * 10
                       else real_of_int M / 100 / 10)) ''ma AC'')
        else Inr (Measurement (Float (- v)) u))"
proof -
  from int_of_str_frame [OF assms(1)]
  obtain M where M: "int_of_str (frame_numbers a) = Inr M" by blast
  let ?s = "\<lambda>n. rules (frame_ba a) \<lparr>var_unit = unit m,
                var_value = real_of_int M / real_of_int (divisor m), var_negative = n\<rparr>"
  note fb = frame_ba_with_bit [OF assms(1)]
  have same: "rules (frame_ba (with_bit 21 b a)) = rules (frame_ba a)" for b
    by (rule rules_with_bit [OF assms(1)]) simp
  have p: "process_frame ar (with_bit 21 b a) =
      Inr (Measurement (Float (var_value (?s (if b then 1 else 0))))
         (var_unit (?s (if b then 1 else 0))))" for b
    using assms(4)
    by (simp add: process_frame_with_bit [OF assms(1-3) M] Let_def same rule_overflow_def fb)
  note mc = modes_cases [OF assms(3)]
  note rs = rules_sign [OF mc, of "frame_ba a" "real_of_int M / real_of_int (divisor m)"]
  let ?forced = "unit m = ''V AC'' \<or> unit m = ''uA AC'' \<or>
    (unit m = ''mV DC'' \<and> frame_ba a ! 12)"
  have p0: "process_frame ar (with_bit 21 False a) =
      Inr (Measurement (Float (var_value (?s 0))) (var_unit (?s 0)))"
    using p [of False] by simp
  have p1: "process_frame ar (with_bit 21 True a) =
      Inr (Measurement (Float (var_value (?s 1))) (var_unit (?s 1)))"
    using p [of True] by simp
  consider (forced) "?forced" | (dbm) "\<not> ?forced" "unit m = ''dBm''"
    | (other) "\<not> ?forced" "unit m \<noteq> ''dBm''"
    by blast
  then have "process_frame ar (with_bit 21 True a) =
       (if ?forced
        then Inr (Measurement (Float (var_value (?s 0))) (var_unit (?s 0)))
        else if unit m = ''dBm''
        then Inr (Measurement
               (Float (if frame_ba a ! 0 then real_of_int M / 100 / 10 * 10
                       else real_of_int M / 100 / 10)) ''ma AC'')
        else Inr (Measurement (Float (- var_value (?s 0))) (var_unit (?s 0))))"
  proof cases
    case forced
    with rs have "?s 1 = ?s 0" by (simp only: if_True)
    with forced show ?thesis by (simp only: p1 if_True)
  next
    case dbm
    from mc dbm(2) have d: "divisor m = 100" by (elim insertE emptyE) simp_all
    from rs dbm have "?s 1 = \<lparr>var_unit = ''ma AC'',
        var_value = (if frame_ba a ! 0
          then real_of_int M / real_of_int (divisor m) / 10 * 10
          else real_of_int M / real_of_int (divisor m) / 10),
        var_negative = 0\<rparr>"
      by (simp only: if_False if_True)
    with dbm d show ?thesis by (simp only: p1 if_False if_True) simp
  next
    case other
    with rs have "var_unit (?s 1) = var_unit (?s 0) \<and> var_value (?s 1) = - var_value (?s 0)"
      by (simp only: if_False)
    with other show ?thesis by (simp only: p1 if_False)
  qed
  with M p0 show ?thesis by blast
qed


text \<open>The V DC frame with the digits 01234 and the sign bit decodes to - 1234 / 10000.\<close>

theorem sign_bit_negates_witness:
  "process_frame \<lparr>csv = False, iso_time = False, raw = False, unix_time = False\<rparr>
     (with_bit 21 True [160, 2, 0, 0, 1, 2, 3, 4]) =
   Inr (Measurement (Float (- (1234 / 10000))) ''V DC'')"
proof -
  let ?a = "[160, 2, 0, 0, 1, 2, 3, 4] :: byte list"
  let ?ar = "\<lparr>csv = False, iso_time = False, raw = False, unix_time = False\<rparr>"
  have h1: "length ?a = 8" by simp
  have h2: "\<not> raw ?ar" by simp
  have h3: "map_of modes (tobytes (frame_mode ?a)) = Some (Mode ''V DC'' 10000)"
    by code_simp
  have h4: "\<not> frame_ba ?a ! 13" by code_simp
  have e: "process_frame ?ar (with_bit 21 False ?a) =
      Inr (Measurement (Float (1234 / 10000)) ''V DC'')"
    by code_simp
  from sign_bit_negates [OF h1 h2 h3 h4] e show ?thesis by auto
qed

text \<open>
  C4 as stated fails when bit 13 is set: the V DC frame \<open>[160, 34, 0, 0, 1, 2, 3, 4]\<close> decodes
  to the string \<^verbatim>\<open>'OVERFLOW'\<close> with the sign bit set and with the sign bit cleared, and a
  string is the negation of nothing.
\<close>

theorem sign_bit_negates_counterexample:
  "length [160, 34, 0, 0, 1, 2, 3, 4 :: byte] = 8 \<and>
   map_of modes (tobytes (frame_mode [160, 34, 0, 0, 1, 2, 3, 4])) =
     Some (Mode ''V DC'' 10000) \<and>
   process_frame \<lparr>csv = False, iso_time = False, raw = False, unix_time = False\<rparr>
     (with_bit 21 False [160, 34, 0, 0, 1, 2, 3, 4]) =
     Inr (Measurement (Str ''OVERFLOW'') ''V DC'') \<and>
   process_frame \<lparr>csv = False, iso_time = False, raw = False, unix_time = False\<rparr>
     (with_bit 21 True [160, 34, 0, 0, 1, 2, 3, 4]) =
     Inr (Measurement (Str ''OVERFLOW'') ''V DC'')"
  by code_simp

text \<open>
  C5. A frame whose mode is mV DC (divisor 1000), with bit 12 set and bits 0, 1, 2, 13
  and 14 cleared, decodes to the unit A AC and to the magnitude divided by 1000 and then
  by 10, which is not negative, whatever the sign bit 21 is.
\<close>

theorem mvdc_bit12:
  assumes "length a = 8" and "\<not> raw ar"
    and "map_of modes (tobytes (frame_mode a)) = Some (Mode ''mV DC'' 1000)"
    and "frame_ba a ! 12"
    and "\<forall>i \<in> {0, 1, 2, 13, 14}. \<not> frame_ba a ! i"
  shows "\<exists>M. int_of_str (frame_numbers a) = Inr M \<and> 0 \<le> M \<and>
           process_frame ar a =
             Inr (Measurement (Float (real_of_int M / 1000 / 10)) ''A AC'')"
proof -
  from int_of_str_frame [OF assms(1)]
  obtain M where M: "0 \<le> M" "int_of_str (frame_numbers a) = Inr M" by blast
  from assms(5) have bits: "\<not> frame_ba a ! 0" "\<not> frame_ba a ! 13" by simp_all
  have "process_frame ar a =
      Inr (Measurement (Float (real_of_int M / 1000 / 10)) ''A AC'')"
    using bits assms(4)
    by (simp add: process_frame_known [OF assms(2,3) M(2)] Let_def rules_eval
        rule_overflow_def)
  with M show ?thesis by blast
qed

text \<open>
  The mV DC frame \<open>[160, 20, 32, 0, 1, 2, 3, 4]\<close> has bit 12 and the sign bit set: it
  decodes to 1234 / 1000 / 10 A AC.
\<close>

theorem mvdc_bit12_witness:
  "process_frame \<lparr>csv = False, iso_time = False, raw = False, unix_time = False\<rparr>
     [160, 20, 32, 0, 1, 2, 3, 4] = Inr (Measurement (Float (1234 / 1000 / 10)) ''A AC'')
   \<and> frame_ba [160, 20, 32, 0, 1, 2, 3, 4] ! 21"
proof -
  let ?a = "[160, 20, 32, 0, 1, 2, 3, 4] :: byte list"
  let ?ar = "\<lparr>csv = False, iso_time = False, raw = False, unix_time = False\<rparr>"
  have h1: "length ?a = 8" by simp
  have h2: "\<not> raw ?ar" by simp
  have h3: "map_of modes (tobytes (frame_mode ?a)) = Some (Mode ''mV DC'' 1000)"
    by code_simp
  have h4: "frame_ba ?a ! 12" by code_simp
  have h5: "\<forall>i \<in> {0, 1, 2, 13, 14}. \<not> frame_ba ?a ! i" by code_simp
  have e: "int_of_str (frame_numbers ?a) = Inr 1234" by code_simp
  have s: "frame_ba ?a ! 21" by code_simp
  from mvdc_bit12 [OF h1 h2 h3 h4 h5] e s show ?thesis by simp
qed

text \<open>
  C6. A frame whose mode is V AC and whose bit 12 is set decodes to the unit mA DC and to
  the value that the same frame with bit 12 cleared decodes to as V AC; the rule itself
  sets the unit to mA DC and leaves the value as it is.
\<close>

theorem vac_bit12_no_rescale:
  assumes "length a = 8" and "\<not> raw ar"
    and "map_of modes (tobytes (frame_mode a)) = Some (Mode ''V AC'' 10000)"
    and "frame_ba a ! 12"
  shows "(\<exists>val. process_frame ar (with_bit 12 False a) = Inr (Measurement val ''V AC'') \<and>
            process_frame ar a = Inr (Measurement val ''mA DC'')) \<and>
         var_value (rule_vac12 (frame_ba a) s) = var_value s \<and>
         (var_unit s = ''V AC'' \<longrightarrow> var_unit (rule_vac12 (frame_ba a) s) = ''mA DC'')"
proof -
  from int_of_str_frame [OF assms(1)]
  obtain M where M: "int_of_str (frame_numbers a) = Inr M" by blast
  note fb = frame_ba_with_bit [OF assms(1)]
  let ?v = "\<lambda>ba. if ba ! 13 then Str ''OVERFLOW''
     else Float (var_value (rules ba \<lparr>var_unit = ''V AC'',
        var_value = real_of_int M / 10000,
        var_negative = (if ba ! 21 then 1 else 0)\<rparr>))"
  have p1: "process_frame ar a = Inr (Measurement
      (if frame_ba a ! 13 then Str ''OVERFLOW''
       else Float (if frame_ba a ! 0
         then (if frame_ba a ! 1 then real_of_int M / 10000 * 100 else real_of_int M / 10000) * 10
         else (if frame_ba a ! 1 then real_of_int M / 10000 * 100 else real_of_int M / 10000)))
      ''mA DC'')"
    using assms(4)
    by (simp add: process_frame_known [OF assms(2,3) M] Let_def rules_eval rule_overflow_def)
  have p0: "process_frame ar (with_bit 12 False a) = Inr (Measurement
      (if frame_ba a ! 13 then Str ''OVERFLOW''
       else Float (if frame_ba a ! 0
         then (if frame_ba a ! 1 then real_of_int M / 10000 * 100 else real_of_int M / 10000) * 10
         else (if frame_ba a ! 1 then real_of_int M / 10000 * 100 else real_of_int M / 10000)))
      ''V AC'')"
    by (simp add: process_frame_with_bit [OF assms(1-3) M] Let_def rules_eval
        rule_overflow_def fb)
  from p0 p1 assms(4) show ?thesis by (simp add: rule_vac12_def)
qed

text \<open>
  The V AC frame \<open>[160, 16, 0, 0, 1, 2, 3, 4]\<close> has bit 12 set: it decodes to
  1234 / 10000 mA DC.
\<close>

theorem vac_bit12_no_rescale_witness:
  "process_frame \<lparr>csv = False, iso_time = False, raw = False, unix_time = False\<rparr>
     [160, 16, 0, 0, 1, 2, 3, 4] = Inr (Measurement (Float (1234 / 10000)) ''mA DC'')"
proof -
  let ?a = "[160, 16, 0, 0, 1, 2, 3, 4] :: byte list"
  let ?ar = "\<lparr>csv = False, iso_time = False, raw = False, unix_time = False\<rparr>"
  have h1: "length ?a = 8" by simp
  have h2: "\<not> raw ?ar" by simp
  have h3: "map_of modes (tobytes (frame_mode ?a)) = Some (Mode ''V AC'' 10000)"
    by code_simp
  have h4: "frame_ba ?a ! 12" by code_simp
  have e: "process_frame ?ar (with_bit 12 False ?a) =
      Inr (Measurement (Float (1234 / 10000)) ''V AC'')"
    by code_simp
  from vac_bit12_no_rescale [OF h1 h2 h3 h4] e show ?thesis by auto
qed

text \<open>
  C7, as amended. For every 8-byte frame the digit string parses and the magnitude is not
  negative; it is at most 99999 when each of the five digit bytes has a value from 0 to 9.
\<close>

theorem magnitude_range:
  assumes "length a = 8"
  shows "\<exists>M. int_of_str (frame_numbers a) = Inr M \<and> 0 \<le> M \<and>
           ((\<forall>c \<in> set (drop 3 a). unat c \<le> 9) \<longrightarrow> M \<le> 99999)"
proof -
  from int_of_str_frame [OF assms]
  obtain M where M: "0 \<le> M" "int_of_str (frame_numbers a) = Inr M" by blast
  have "M \<le> 99999" if small: "\<forall>c \<in> set (drop 3 a). unat c \<le> 9"
  proof -
    have d: "drop 3 a = [a ! 3, a ! 4, a ! 5, a ! 6, a ! 7]"
      using frame_digits [OF assms] assms by simp
    from small have s: "unat (a ! 3) < 10" "unat (a ! 4) < 10" "unat (a ! 5) < 10"
      "unat (a ! 6) < 10" "unat (a ! 7) < 10"
      unfolding d by simp_all
    have "frame_numbers a = [digit_chars ! unat (a ! 3), digit_chars ! unat (a ! 4),
        digit_chars ! unat (a ! 5), digit_chars ! unat (a ! 6), digit_chars ! unat (a ! 7)]"
      by (simp add: frame_numbers_def frame_digits [OF assms] str_small s)
    moreover have "\<And>n. n < 10 \<Longrightarrow> digit_chars ! n \<in> set digit_chars"
      by (intro nth_mem) (simp add: digit_chars_def)
    ultimately have "int_of_str (frame_numbers a) =
        Inr (10 * (10 * (10 * (10 * int (unat (a ! 3)) + int (unat (a ! 4)))
          + int (unat (a ! 5))) + int (unat (a ! 6))) + int (unat (a ! 7)))"
      using s by (simp add: int_of_str_def digit_val_nth)
    with M(2) have "M = 10 * (10 * (10 * (10 * int (unat (a ! 3)) + int (unat (a ! 4)))
          + int (unat (a ! 5))) + int (unat (a ! 6))) + int (unat (a ! 7))"
      by (simp only: sum.inject)
    with s show ?thesis by (simp only: five_digits_bound)
  qed
  with M show ?thesis by blast
qed

text \<open>Five digit bytes of value 9 give the magnitude 99999.\<close>

theorem magnitude_range_witness:
  "int_of_str (frame_numbers [160, 2, 0, 9, 9, 9, 9, 9]) = Inr 99999"
proof -
  let ?a = "[160, 2, 0, 9, 9, 9, 9, 9] :: byte list"
  have h: "length ?a = 8" by simp
  have s: "\<forall>c \<in> set (drop 3 ?a). unat c \<le> 9" by simp
  have e: "int_of_str (frame_numbers ?a) = Inr 99999" by code_simp
  from magnitude_range [OF h] s e show ?thesis by simp
qed

text \<open>
  C7 as stated fails: a digit byte of value 10 contributes the two characters \<^verbatim>\<open>10\<close>, so
  the digit bytes 10, 0, 0, 0, 0 give the magnitude 100000.
\<close>

theorem magnitude_range_counterexample:
  "length [160, 2, 0, 10, 0, 0, 0, 0 :: byte] = 8 \<and>
   int_of_str (frame_numbers [160, 2, 0, 10, 0, 0, 0, 0]) = Inr 100000 \<and>
   \<not> (100000 :: int) \<le> 99999"
  by code_simp

text \<open>
  C9. For every 8-byte frame, whatever its five digit bytes are, the digit string parses
  and lines 86 to 168 raise nothing: they end in one of the three outcomes.
\<close>

theorem digits_never_raise:
  assumes "length a = 8"
  shows "\<exists>M out. int_of_str (frame_numbers a) = Inr M \<and> process_frame ar a = Inr out"
proof -
  from int_of_str_frame [OF assms]
  obtain M where M: "int_of_str (frame_numbers a) = Inr M" by blast
  show ?thesis
  proof (cases "map_of modes (tobytes (frame_mode a))")
    case None
    with M show ?thesis by (simp add: process_frame_def Let_def)
  next
    case (Some m)
    from modes_divisor [OF this] Some M show ?thesis
      by (simp add: process_frame_def Let_def)
  qed
qed

text \<open>
  The digit bytes 255, 65, 0, 10, 200 give the digit string \<^verbatim>\<open>25565010200\<close>, and the frame
  decodes as any other V DC frame.
\<close>

theorem digits_never_raise_witness:
  "process_frame \<lparr>csv = False, iso_time = False, raw = False, unix_time = False\<rparr>
     [160, 2, 0, 255, 65, 0, 10, 200] =
   Inr (Measurement (Float (25565010200 / 10000)) ''V DC'')"
proof -
  let ?a = "[160, 2, 0, 255, 65, 0, 10, 200] :: byte list"
  let ?ar = "\<lparr>csv = False, iso_time = False, raw = False, unix_time = False\<rparr>"
  have h: "length ?a = 8" by simp
  have e: "process_frame ?ar ?a = Inr (Measurement (Float (25565010200 / 10000)) ''V DC'')"
    by code_simp
  from digits_never_raise [OF h, of ?ar] e show ?thesis by simp
qed

text \<open>
  C2. An 8-byte frame whose mode is no key of the table decodes to the unknown-mode
  outcome, with its mode slice and its magnitude; nothing is raised, no measurement is
  printed, and the loop goes on with the reads that follow.
\<close>

theorem unknown_mode_continues:
  assumes "pending w = a # rest" and "length a = 8" and "\<not> raw ar"
    and "map_of modes (tobytes (frame_mode a)) = None"
  shows "\<exists>M. int_of_str (frame_numbers a) = Inr M \<and>
     process_frame ar a = Inr (UnknownMode (frame_mode a) M) \<and>
     process_loop (Suc n) ar w =
       process_loop n ar (w\<lparr>pending := rest, calls := calls w @ [(8, timeout w)],
          printed := printed w @ [Err_unknown_mode (frame_mode a) M]\<rparr>)"
proof -
  from int_of_str_frame [OF assms(2)]
  obtain M where M: "int_of_str (frame_numbers a) = Inr M" by blast
  with assms(3,4) have pf: "process_frame ar a = Inr (UnknownMode (frame_mode a) M)"
    by (simp add: process_frame_def Let_def)
  with assms(1,2) have "process_loop (Suc n) ar w =
       process_loop n ar (w\<lparr>pending := rest, calls := calls w @ [(8, timeout w)],
          printed := printed w @ [Err_unknown_mode (frame_mode a) M]\<rparr>)"
    by (simp add: read_def print_def)
  with M pf show ?thesis by blast
qed

text \<open>
  A frame with the mode slice 000000000 followed by a V DC frame: the first yields the
  diagnostic, the second is decoded.
\<close>

theorem unknown_mode_continues_witness:
  "process_loop (Suc (Suc 0))
     \<lparr>csv = False, iso_time = False, raw = False, unix_time = False\<rparr>
     \<lparr>timeout = 400,
      pending = [ [0, 0, 0, 0, 1, 2, 3, 4], [160, 2, 0, 0, 1, 2, 3, 4] ],
      calls = [], printed = []\<rparr> =
   Some (Inr \<lparr>timeout = 400, pending = [], calls = [(8, 400), (8, 400)],
      printed = [Err_unknown_mode (replicate 9 False) 1234,
                 Out_measurement No_timestamp (Float (1234 / 10000)) [CHR 0x09] ''V DC'']\<rparr>)"
proof -
  let ?a = "[0, 0, 0, 0, 1, 2, 3, 4] :: byte list"
  let ?ar = "\<lparr>csv = False, iso_time = False, raw = False, unix_time = False\<rparr>"
  let ?w = "\<lparr>timeout = 400, pending = [?a, [160, 2, 0, 0, 1, 2, 3, 4] ],
      calls = [], printed = []\<rparr>"
  have h1: "pending ?w = ?a # [ [160, 2, 0, 0, 1, 2, 3, 4] ]" by simp
  have h2: "length ?a = 8" by simp
  have h3: "\<not> raw ?ar" by simp
  have h4: "map_of modes (tobytes (frame_mode ?a)) = None" by code_simp
  have e1: "int_of_str (frame_numbers ?a) = Inr 1234" by code_simp
  have e2: "frame_mode ?a = replicate 9 False" by code_simp
  have e3: "process_loop (Suc 0) ?ar
      \<lparr>timeout = 400, pending = [ [160, 2, 0, 0, 1, 2, 3, 4] ], calls = [(8, 400)],
       printed = [Err_unknown_mode (replicate 9 False) 1234]\<rparr> =
     Some (Inr \<lparr>timeout = 400, pending = [], calls = [(8, 400), (8, 400)],
      printed = [Err_unknown_mode (replicate 9 False) 1234,
                 Out_measurement No_timestamp (Float (1234 / 10000)) [CHR 0x09] ''V DC'']\<rparr>)"
    by code_simp
  from unknown_mode_continues [OF h1 h2 h3 h4, of "Suc 0"] e1 e2 e3 show ?thesis by simp
qed

text \<open>
  C8. \<^verbatim>\<open>synchronize\<close> sets the timeout to 50, issues one read of 16 bytes, whose result it
  drops, and then reads of 8 bytes under that timeout until one of them returns 8 bytes;
  it returns at that read, with the timeout at 400, and never returns when no such read
  comes. Apart from the reads it consumed and the lengths it printed, the world is as
  before.
\<close>

theorem synchronize_first_full_read:
  "synchronize w =
     (case dropWhile short (drop 1 (pending w)) of
        [] \<Rightarrow> None
      | full # rest \<Rightarrow>
          Some (w\<lparr>timeout := 400, pending := rest,
                  calls := calls w @ (16, 50) #
                    replicate (Suc (length (takeWhile short (drop 1 (pending w))))) (8, 50),
                  printed := printed w @
                    map (\<lambda>c. Out_len (length c)) (takeWhile short (drop 1 (pending w))) @
                    [Out_len 8]\<rparr>))"
proof (cases "pending w")
  case Nil
  then show ?thesis
    by (simp add: synchronize_def read_def sync_loop_char)
next
  case (Cons c cs)
  then show ?thesis
    by (cases "dropWhile short cs")
      (simp_all add: synchronize_def read_def sync_loop_char del: dropWhile_eq_Nil_conv)
qed

text \<open>
  Reads of 3 bytes, of 5 bytes and then of 8 bytes each: the call returns at the first
  read of 8 bytes, with the timeout at 400 and the next frame still pending.
\<close>

theorem synchronize_first_full_read_witness:
  "synchronize \<lparr>timeout = 0,
       pending = [ [1, 2, 3], [4, 5, 6, 7, 8], [160, 2, 0, 0, 1, 2, 3, 4],
                  [160, 2, 0, 0, 5, 6, 7, 8] ],
       calls = [], printed = []\<rparr> =
   Some \<lparr>timeout = 400, pending = [ [160, 2, 0, 0, 5, 6, 7, 8] ],
       calls = [(16, 50), (8, 50), (8, 50)], printed = [Out_len 5, Out_len 8]\<rparr>"
  by (simp add: synchronize_first_full_read short_def)

text \<open>
  C10. With raw output selected, a run of 8-byte frames prints exactly one raw record for
  each frame, in order, and nothing else, whatever the modes of the frames are: every
  frame ends in the raw outcome, never in a diagnostic or a measurement.
\<close>

theorem raw_mode_records:
  assumes "raw ar" and "\<forall>a \<in> set fs. length a = 8" and "pending w = fs @ rest"
  shows "process_loop (length fs) ar w =
       Some (Inr (w\<lparr>pending := rest,
                    calls := calls w @ replicate (length fs) (8, timeout w),
                    printed := printed w @ map raw_record fs\<rparr>)) \<and>
     (\<forall>a \<in> set fs. process_frame ar a =
        Inr (Raw (frame_ba a) (frame_mode a) (if frame_ba a ! 21 then 1 else 0)
               (frame_numbers a)))"
proof -
  have "process_loop (length fs) ar w =
       Some (Inr (w\<lparr>pending := rest,
                    calls := calls w @ replicate (length fs) (8, timeout w),
                    printed := printed w @ map raw_record fs\<rparr>))"
    using assms(2,3)
  proof (induction fs arbitrary: w)
    case Nil
    then show ?case by simp
  next
    case (Cons a fs)
    let ?w = "w\<lparr>pending := fs @ rest, calls := calls w @ [(8, timeout w)],
        printed := printed w @ [raw_record a]\<rparr>"
    from Cons.prems have len: "length a = 8" and p: "pending w = a # (fs @ rest)"
      by simp_all
    have "process_loop (length (a # fs)) ar w = process_loop (length fs) ar ?w"
      using process_loop_raw_step [OF assms(1) len p] by simp
    moreover have "process_loop (length fs) ar ?w =
       Some (Inr (?w\<lparr>pending := rest,
                    calls := calls ?w @ replicate (length fs) (8, timeout ?w),
                    printed := printed ?w @ map raw_record fs\<rparr>))"
      using Cons.prems by (intro Cons.IH) simp_all
    ultimately show ?case by (simp add: replicate_app_Cons_same)
  qed
  with assms(1,2) show ?thesis by (simp add: process_frame_raw)
qed

text \<open>
  The first of these two frames has a mode that is no key of the table; both yield a raw
  record.
\<close>

theorem raw_mode_records_witness:
  "process_loop 2 \<lparr>csv = False, iso_time = False, raw = True, unix_time = False\<rparr>
     \<lparr>timeout = 400,
      pending = [ [0, 0, 0, 0, 1, 2, 3, 4], [160, 2, 0, 0, 1, 2, 3, 4] ],
      calls = [], printed = []\<rparr> =
   Some (Inr \<lparr>timeout = 400, pending = [], calls = [(8, 400), (8, 400)],
      printed = [raw_record [0, 0, 0, 0, 1, 2, 3, 4], raw_record [160, 2, 0, 0, 1, 2, 3, 4] ]\<rparr>)
   \<and> map_of modes (tobytes (frame_mode [0, 0, 0, 0, 1, 2, 3, 4])) = None"
proof -
  let ?fs = "[ [0, 0, 0, 0, 1, 2, 3, 4], [160, 2, 0, 0, 1, 2, 3, 4] ] :: byte list list"
  let ?ar = "\<lparr>csv = False, iso_time = False, raw = True, unix_time = False\<rparr>"
  let ?w = "\<lparr>timeout = 400, pending = ?fs, calls = [], printed = []\<rparr>"
  have h1: "raw ?ar" by simp
  have h2: "\<forall>a \<in> set ?fs. length a = 8" by simp
  have h3: "pending ?w = ?fs @ []" by simp
  have e: "map_of modes (tobytes (frame_mode [0, 0, 0, 0, 1, 2, 3, 4])) = None" by code_simp
  from raw_mode_records [OF h1 h2 h3] e show ?thesis
    by (simp add: eval_nat_numeral)
qed

end
